theory Spec2Isabelle
  imports Main "HOL-Library.AList" "HOL-Library.Char_ord" "HOL-Library.List_Lexorder"
begin

section \<open>Strings\<close>

text \<open>
  A Python \<open>str\<close> is modelled as a \<open>string\<close>. Only two properties of a character
  matter to the program: whether \<open>str.strip()\<close> treats it as white space and whether
  it is the path separator \<open>/\<close>. \<open>py_isspace\<close> lists the code points below 256 for
  which Python's \<open>str.isspace\<close> holds.
\<close>

definition py_isspace :: "char \<Rightarrow> bool" where
  "py_isspace c = ((of_char c :: nat) \<in> {9, 10, 11, 12, 13, 28, 29, 30, 31, 32, 133, 160})"

text \<open>\<open>s.strip(chars)\<close>: drop the characters satisfying \<open>P\<close> from both ends.\<close>

definition strip_chars :: "(char \<Rightarrow> bool) \<Rightarrow> string \<Rightarrow> string" where
  "strip_chars P s = rev (dropWhile P (rev (dropWhile P s)))"

text \<open>\<open>_norm_path(p)\<close> is \<open>p.strip()\<close>.\<close>

definition norm_path :: "string \<Rightarrow> string" where
  "norm_path p = strip_chars py_isspace p"

text \<open>\<open>s.split(sep)\<close> for a one-character separator; \<open>"".split("/")\<close> is \<open>[""]\<close>.\<close>

fun split :: "char \<Rightarrow> string \<Rightarrow> string list" where
  "split sep [] = [[]]"
| "split sep (c # cs) =
     (if c = sep then [] # split sep cs
      else (case split sep cs of
              [] \<Rightarrow> [[c]]
            | w # ws \<Rightarrow> (c # w) # ws))"

text \<open>\<open>s.startswith(p)\<close>.\<close>

definition startswith :: "string \<Rightarrow> string \<Rightarrow> bool" where
  "startswith s p = (take (length p) s = p)"

section \<open>The record store\<close>

text \<open>
  The dataclass \<open>Contact\<close>. \<open>folder_path\<close> is always a \<open>str\<close>. The other fields
  are annotated \<open>str\<close> as well, but nothing enforces it: \<open>csv.DictReader\<close> fills the
  cells a short row lacks with \<open>None\<close>, and \<open>load_contacts\<close> stores that value as it
  is. They are therefore optional strings, \<open>None\<close> standing for Python's \<open>None\<close>.
  The field \<open>notes\<close> is called \<open>notes_text\<close>, since \<open>notes\<close> is reserved.
\<close>

record Contact =
  folder_path :: string
  name :: "string option"
  ammyadmin_id :: "string option"
  anydesk_id :: "string option"
  rustdesk_id :: "string option"
  notes_text :: "string option"

text \<open>The exceptions the modelled code can raise.\<close>

datatype error =
    IndexError
  | ValueError
  | KeyError string
  | AttributeError
  | TclError
  | CsvError
  | UnicodeDecodeError

text \<open>
  A method that mutates \<open>self.contacts\<close> in place and may raise midway returns
  \<open>Inl (e, cs)\<close>, where \<open>cs\<close> is the list as the exception left it, or \<open>Inr cs\<close>.
  Record positions are the row identifiers \<open>str(idx)\<close> produced by \<open>enumerate\<close>, so
  they are natural numbers.
\<close>

type_synonym store = "Contact list"
type_synonym outcome = "(error \<times> store) + store"

text \<open>\<open>del xs[i]\<close> and \<open>xs.pop(i)\<close> on a valid position; \<open>xs.insert(k, x)\<close>, which
  appends when \<open>k\<close> is beyond the end.\<close>

definition remove_nth :: "nat \<Rightarrow> 'a list \<Rightarrow> 'a list" where
  "remove_nth i xs = take i xs @ drop (Suc i) xs"

definition list_insert :: "nat \<Rightarrow> 'a \<Rightarrow> 'a list \<Rightarrow> 'a list" where
  "list_insert k x xs = take k xs @ x # drop k xs"

subsection \<open>Deleting selected contacts\<close>

text \<open>
  The contact branch of \<open>delete_selected\<close>, once the user has confirmed:
  \<^verbatim>\<open>
  indices = sorted([int(iid) for iid in sel_contacts], reverse=True)
  for i in indices:
      del self.contacts[i]
  \<close>
  \<open>del\<close> raises \<open>IndexError\<close> on a position that is out of range; nothing catches it.
\<close>

fun del_each :: "nat list \<Rightarrow> store \<Rightarrow> outcome" where
  "del_each [] cs = Inr cs"
| "del_each (i # is) cs =
     (if i < length cs then del_each is (remove_nth i cs) else Inl (IndexError, cs))"

definition delete_selected_contacts :: "nat list \<Rightarrow> store \<Rightarrow> outcome" where
  "delete_selected_contacts sel_contacts cs = del_each (rev (sort sel_contacts)) cs"

subsection \<open>Deleting a folder\<close>

text \<open>
  The folder branch of \<open>delete_selected\<close>, as far as the records are concerned:
  \<^verbatim>\<open>
  self.contacts = [
      c for c in self.contacts if not c.folder_path.startswith(folder_path)
  ]
  \<close>
  and as far as the registry \<open>folder_path_to_id\<close> is concerned:
  \<^verbatim>\<open>
  to_remove = [fp for fp in self.folder_path_to_id
               if fp == folder_path or fp.startswith(folder_path + "/")]
  for fp in to_remove:
      del self.folder_path_to_id[fp]
  \<close>
\<close>

definition delete_folder_contacts :: "string \<Rightarrow> store \<Rightarrow> store" where
  "delete_folder_contacts p cs = filter (\<lambda>c. \<not> startswith (folder_path c) p) cs"

definition in_subtree :: "string \<Rightarrow> string \<Rightarrow> bool" where
  "in_subtree p fp = (fp = p \<or> startswith fp (p @ ''/''))"

definition delete_folder_registry :: "string \<Rightarrow> (string \<times> string) list \<Rightarrow> (string \<times> string) list" where
  "delete_folder_registry p reg = filter (\<lambda>(fp, _). \<not> in_subtree p fp) reg"

subsection \<open>Drag and drop helpers\<close>

text \<open>
  \<open>_move_contact_to_end_of_folder\<close>: the loop keeps the last position whose record is
  in the folder of the removed one.
\<close>

definition last_idx_in :: "string \<Rightarrow> store \<Rightarrow> nat option" where
  "last_idx_in folder cs =
     fold (\<lambda>(i, c) last_idx. if folder_path c = folder then Some i else last_idx)
          (zip [0..<length cs] cs) None"

definition move_contact_to_end_of_folder :: "nat \<Rightarrow> store \<Rightarrow> outcome" where
  "move_contact_to_end_of_folder source_idx cs =
     (if source_idx < length cs then
        (let contact = cs ! source_idx;
             cs1 = remove_nth source_idx cs
         in case last_idx_in (folder_path contact) cs1 of
              None \<Rightarrow> Inr (cs1 @ [contact])
            | Some last_idx \<Rightarrow> Inr (list_insert (last_idx + 1) contact cs1))
      else Inl (IndexError, cs))"

text \<open>
  \<open>_reorder_within_folder\<close>. \<open>folder_indices.index(x)\<close> raises \<open>ValueError\<close> when
  \<open>x\<close> is not in the list, which is the case for a target in another folder.
\<close>

fun index_of :: "nat \<Rightarrow> nat list \<Rightarrow> nat option" where
  "index_of x [] = None"
| "index_of x (y # ys) =
     (if x = y then Some 0 else map_option Suc (index_of x ys))"

definition folder_indices :: "string \<Rightarrow> store \<Rightarrow> nat list" where
  "folder_indices folder cs = filter (\<lambda>i. folder_path (cs ! i) = folder) [0..<length cs]"

definition write_back :: "nat list \<Rightarrow> store \<Rightarrow> store \<Rightarrow> store" where
  "write_back idxs folder_contacts cs =
     fold (\<lambda>(local_i, global_i) acc. acc[global_i := folder_contacts ! local_i])
          (zip [0..<length idxs] idxs) cs"

definition reorder_within_folder :: "nat \<Rightarrow> nat \<Rightarrow> store \<Rightarrow> outcome" where
  "reorder_within_folder source_idx target_idx cs =
     (if source_idx < length cs then
        (let folder = folder_path (cs ! source_idx);
             idxs = folder_indices folder cs
         in case index_of source_idx idxs of
              None \<Rightarrow> Inl (ValueError, cs)
            | Some src_pos \<Rightarrow>
               (case index_of target_idx idxs of
                  None \<Rightarrow> Inl (ValueError, cs)
                | Some tgt_pos \<Rightarrow>
                   (let folder_contacts = map (\<lambda>i. cs ! i) idxs;
                        contact_obj = folder_contacts ! src_pos;
                        folder_contacts1 = remove_nth src_pos folder_contacts;
                        folder_contacts2 = list_insert tgt_pos contact_obj folder_contacts1
                    in Inr (write_back idxs folder_contacts2 cs))))
      else Inl (IndexError, cs))"

text \<open>
  \<open>_move_contact_to_folder_at_position\<close>. When \<open>source_idx < target_idx\<close> the target
  index is at least 1, so \<open>insert_pos - 1\<close> is not negative.
\<close>

definition move_contact_to_folder_at_position :: "nat \<Rightarrow> string \<Rightarrow> nat \<Rightarrow> store \<Rightarrow> outcome" where
  "move_contact_to_folder_at_position source_idx target_folder target_idx cs =
     (if source_idx < length cs then
        (let contact = (cs ! source_idx)\<lparr>folder_path := target_folder\<rparr>;
             cs1 = remove_nth source_idx cs;
             insert_pos = (if source_idx < target_idx then target_idx - 1 else target_idx)
         in Inr (list_insert (insert_pos + 1) contact cs1))
      else Inl (IndexError, cs))"

section \<open>Persistence\<close>

text \<open>
  Python's \<open>csv\<close> library is not part of the program. The file \<open>contacts.csv\<close> is
  modelled by what \<open>csv.reader\<close> does on it: each call of \<open>next\<close> returns a row (a
  list of cells) or raises, \<open>csv.Error\<close> for text the reader rejects and
  \<open>UnicodeDecodeError\<close> for bytes that are not UTF-8, and the iteration stops at the
  end of the list. \<open>None\<close> stands for a file that does not exist.
\<close>

type_synonym csv_rows = "string list list"

datatype read_event = Row "string list" | Raises error

type_synonym csv_file = "read_event list"

text \<open>
  The file \<open>csv.writer\<close> writes for the rows it is given, as the reader reads it
  back: the reader yields the rows as they were written, but raises \<open>csv.Error\<close>
  (field larger than field limit) at the first row with a field of more than
  \<open>csv.field_size_limit()\<close> characters, 131072 by default. (Characters that UTF-8
  cannot encode are not characters of the model; Python before 3.11 also rejects a
  row with a NUL character.)
\<close>

definition field_size_limit :: nat where
  "field_size_limit = 131072"

definition too_long :: "string list \<Rightarrow> bool" where
  "too_long row = (\<exists>field\<in>set row. field_size_limit < length field)"

fun written :: "csv_rows \<Rightarrow> csv_file" where
  "written [] = []"
| "written (row # rows) =
     (if too_long row then [Raises CsvError] else Row row # written rows)"

definition header :: "string list" where
  "header = [''folder'', ''name'', ''ammyadmin_id'', ''anydesk_id'', ''rustdesk_id'', ''notes'']"

text \<open>\<open>csv.writer\<close> writes \<open>None\<close> as the empty cell.\<close>

definition cell :: "string option \<Rightarrow> string" where
  "cell v = (case v of None \<Rightarrow> [] | Some s \<Rightarrow> s)"

definition contact_row :: "Contact \<Rightarrow> string list" where
  "contact_row c =
     [folder_path c, cell (name c), cell (ammyadmin_id c), cell (anydesk_id c),
      cell (rustdesk_id c), cell (notes_text c)]"

text \<open>
  \<open>save_contacts\<close> overwrites the file with the header row and one row per record;
  \<open>saved_rows\<close> are the rows it gives to the writer.
\<close>

definition saved_rows :: "store \<Rightarrow> csv_rows" where
  "saved_rows cs = header # map contact_row cs"

definition save_contacts :: "store \<Rightarrow> csv_file" where
  "save_contacts cs = written (saved_rows cs)"

text \<open>
  One step of \<open>csv.DictReader\<close>: \<open>dict(zip(fieldnames, row))\<close>, where a later
  duplicate column wins, then \<open>None\<close> for every column the row is too short to reach.
  (The cells beyond the last column go under the key \<open>None\<close>, which no lookup of the
  program uses.) The value \<open>Some None\<close> of the map is a key bound to \<open>None\<close>.
\<close>

definition dict_row :: "string list \<Rightarrow> string list \<Rightarrow> (string \<rightharpoonup> string option)" where
  "dict_row fieldnames row =
     fold (\<lambda>key d. d(key \<mapsto> None)) (drop (length row) fieldnames)
       (fold (\<lambda>(key, v) d. d(key \<mapsto> Some v)) (zip fieldnames row) Map.empty)"

text \<open>\<open>row.get(key, "")\<close>.\<close>

definition get_or_empty :: "(string \<rightharpoonup> string option) \<Rightarrow> string \<Rightarrow> string option" where
  "get_or_empty d key = (case d key of None \<Rightarrow> Some [] | Some v \<Rightarrow> v)"

text \<open>
  The body of the loop of \<open>load_contacts\<close>. The arguments of \<open>Contact(...)\<close> are
  evaluated in order: \<open>row["folder"]\<close> raises \<open>KeyError\<close> on a missing key,
  \<open>_norm_path(None)\<close> raises \<open>AttributeError\<close>, then \<open>row["name"]\<close> raises
  \<open>KeyError\<close> on a missing key.
\<close>

definition contact_of_row :: "(string \<rightharpoonup> string option) \<Rightarrow> error + Contact" where
  "contact_of_row d =
     (case d ''folder'' of
        None \<Rightarrow> Inl (KeyError ''folder'')
      | Some None \<Rightarrow> Inl AttributeError
      | Some (Some folder) \<Rightarrow>
         (case d ''name'' of
            None \<Rightarrow> Inl (KeyError ''name'')
          | Some nm \<Rightarrow>
             Inr \<lparr>folder_path = norm_path folder,
                  name = nm,
                  ammyadmin_id = get_or_empty d ''ammyadmin_id'',
                  anydesk_id = get_or_empty d ''anydesk_id'',
                  rustdesk_id = get_or_empty d ''rustdesk_id'',
                  notes_text = get_or_empty d ''notes''\<rparr>))"

text \<open>
  The loop \<open>for row in reader\<close>: \<open>DictReader\<close> skips the rows that are empty
  lists, and an exception of the reader or of the body ends the loop.
\<close>

fun read_rows :: "string list \<Rightarrow> csv_file \<Rightarrow> error + store" where
  "read_rows fieldnames [] = Inr []"
| "read_rows fieldnames (Raises e # events) = Inl e"
| "read_rows fieldnames (Row row # events) =
     (if row = [] then read_rows fieldnames events
      else (case contact_of_row (dict_row fieldnames row) of
              Inl e \<Rightarrow> Inl e
            | Inr c \<Rightarrow>
               (case read_rows fieldnames events of
                  Inl e \<Rightarrow> Inl e
                | Inr cs \<Rightarrow> Inr (c # cs))))"

text \<open>
  \<open>load_contacts\<close> returns the file as it is afterwards and the records read. A file
  that does not exist is created with the header row only. \<open>DictReader\<close> takes the
  first row as the column names; on an empty file there are none and no row is read.
\<close>

definition load_contacts :: "csv_file option \<Rightarrow> error + (csv_file \<times> store)" where
  "load_contacts file =
     (case file of
        None \<Rightarrow> Inr (written [header], [])
      | Some [] \<Rightarrow> Inr ([], [])
      | Some (Raises e # events) \<Rightarrow> Inl e
      | Some (Row fieldnames # events) \<Rightarrow>
         (case read_rows fieldnames events of
            Inl e \<Rightarrow> Inl e
          | Inr cs \<Rightarrow> Inr (Row fieldnames # events, cs)))"

text \<open>
  \<open>_add_contact_callback\<close>: the dialog passes five strings, the record is appended
  with the folder selected at the moment, and the store is saved.
\<close>

record app =
  contacts :: store
  contacts_file :: "csv_file option"

definition new_contact :: "string \<Rightarrow> string \<Rightarrow> string \<Rightarrow> string \<Rightarrow> string \<Rightarrow> string \<Rightarrow> Contact" where
  "new_contact current_folder nm ammy anydesk rustdesk nts =
     \<lparr>folder_path = current_folder, name = Some nm, ammyadmin_id = Some ammy,
      anydesk_id = Some anydesk, rustdesk_id = Some rustdesk, notes_text = Some nts\<rparr>"


section \<open>Ending a drag\<close>

text \<open>
  \<open>on_end_drag\<close>. The pointer position is reduced to what the handler reads from it:
  the row of the folder tree under it (the empty string when there is none), the row
  of the table under it, or neither widget. An exception is caught and shown in a
  message box; the result carries it beside the state the handler leaves. The selection
  of the widgets is not part of the state.
\<close>

record drag_data =
  contact_idx :: nat
  dragged :: bool

datatype drop_target =
    OverFolderTree string
  | OverTable "nat option"
  | Elsewhere

definition drop_on_table :: "nat \<Rightarrow> nat option \<Rightarrow> store \<Rightarrow> outcome" where
  "drop_on_table source_idx target_row cs =
     (case target_row of
        None \<Rightarrow> move_contact_to_end_of_folder source_idx cs
      | Some target_idx \<Rightarrow>
         (if target_idx \<noteq> source_idx then
            (if target_idx < length cs then
               (if folder_path (cs ! target_idx) = folder_path (cs ! source_idx)
                then reorder_within_folder source_idx target_idx cs
                else move_contact_to_folder_at_position source_idx
                       (folder_path (cs ! target_idx)) target_idx cs)
             else Inl (IndexError, cs))
          else Inr cs))"

definition drop_on_folder :: "nat \<Rightarrow> string \<Rightarrow> app \<Rightarrow> app" where
  "drop_on_folder source_idx row st =
     (let cs = contacts st;
          node_id = (if row = [] then ''__root__'' else row);
          new_folder = (if node_id = ''__root__'' then [] else node_id)
      in if folder_path (cs ! source_idx) \<noteq> new_folder then
           (let cs' = cs[source_idx := (cs ! source_idx)\<lparr>folder_path := new_folder\<rparr>]
            in \<lparr>contacts = cs', contacts_file = Some (save_contacts cs')\<rparr>)
         else st)"

definition on_end_drag :: "drag_data option \<Rightarrow> drop_target \<Rightarrow> app \<Rightarrow> app \<times> error option" where
  "on_end_drag drag target st =
     (case drag of
        None \<Rightarrow> (st, None)
      | Some d \<Rightarrow>
         (if \<not> dragged d then (st, None)
          else if \<not> contact_idx d < length (contacts st) then (st, Some IndexError)
          else (case target of
                  OverFolderTree row \<Rightarrow> (drop_on_folder (contact_idx d) row st, None)
                | OverTable target_row \<Rightarrow>
                   (case drop_on_table (contact_idx d) target_row (contacts st) of
                      Inl (e, cs') \<Rightarrow> (st\<lparr>contacts := cs'\<rparr>, Some e)
                    | Inr cs' \<Rightarrow>
                       (\<lparr>contacts = cs', contacts_file = Some (save_contacts cs')\<rparr>, None))
                | Elsewhere \<Rightarrow> (st, None))))"

section \<open>The folder tree\<close>

text \<open>
  The folder index is the \<open>ttk.Treeview\<close> widget \<open>folder_tree\<close> together with the
  dictionary \<open>folder_path_to_id\<close>. The widget is modelled as the list of its items in
  the order of insertion, each with the identifier of its parent, its own identifier
  and its text. The dictionary is an association list in insertion order.
\<close>

record node =
  parent :: string
  iid :: string
  label :: string

record folder_index =
  folder_tree :: "node list"
  folder_path_to_id :: "(string \<times> string) list"

text \<open>
  \<open>Treeview.insert(parent, "end", iid, text=...)\<close> raises \<open>TclError\<close> when an item
  with the identifier exists already or the parent does not exist. The widget's own
  invisible root item has the empty identifier.
\<close>

definition tree_insert :: "string \<Rightarrow> string \<Rightarrow> string \<Rightarrow> node list \<Rightarrow> error + node list" where
  "tree_insert parent_id item_id text nodes =
     (if item_id \<in> set ([] # map iid nodes) \<or> parent_id \<notin> set ([] # map iid nodes)
      then Inl TclError
      else Inr (nodes @ [\<lparr>parent = parent_id, iid = item_id, label = text\<rparr>]))"

text \<open>
  \<open>Treeview.delete(item)\<close> removes the item and its descendants. A parent is always
  inserted before its children, so one pass over the items finds them all.
\<close>

fun tree_delete :: "string list \<Rightarrow> node list \<Rightarrow> node list" where
  "tree_delete gone [] = []"
| "tree_delete gone (n # ns) =
     (if iid n \<in> set gone \<or> parent n \<in> set gone
      then tree_delete (iid n # gone) ns
      else n # tree_delete gone ns)"

text \<open>
  The inner loop of \<open>build_folder_tree\<close> over the segments of one path:
  \<^verbatim>\<open>
  for part in parts:
      cur = f"{cur}/{part}" if cur else part
      if cur not in self.folder_path_to_id:
          node_id = cur
          self.folder_tree.insert(parent_id, "end", node_id, text=part, open=False)
          self.folder_path_to_id[cur] = node_id
          parent_id = node_id
      else:
          parent_id = self.folder_path_to_id[cur]
  \<close>
\<close>

definition join_path :: "string \<Rightarrow> string \<Rightarrow> string" where
  "join_path cur part = (if cur \<noteq> [] then cur @ ''/'' @ part else part)"

fun add_parts :: "string list \<Rightarrow> string \<Rightarrow> string \<Rightarrow> folder_index \<Rightarrow> error + folder_index" where
  "add_parts [] cur parent_id ix = Inr ix"
| "add_parts (part # parts) cur parent_id ix =
     (let cur' = join_path cur part
      in case map_of (folder_path_to_id ix) cur' of
           None \<Rightarrow>
             (case tree_insert parent_id cur' part (folder_tree ix) of
                Inl e \<Rightarrow> Inl e
              | Inr t \<Rightarrow>
                 add_parts parts cur' cur'
                   \<lparr>folder_tree = t,
                    folder_path_to_id = AList.update cur' cur' (folder_path_to_id ix)\<rparr>)
         | Some node_id \<Rightarrow> add_parts parts cur' node_id ix)"

text \<open>The outer loop: \<open>path.strip("/").split("/")\<close> for every path but the root.\<close>

definition path_parts :: "string \<Rightarrow> string list" where
  "path_parts path = split CHR ''/'' (strip_chars (\<lambda>c. c = CHR ''/'') path)"

fun add_paths :: "string list \<Rightarrow> folder_index \<Rightarrow> error + folder_index" where
  "add_paths [] ix = Inr ix"
| "add_paths (path # paths) ix =
     (if path = [] then add_paths paths ix
      else (case add_parts (path_parts path) [] ''__root__'' ix of
              Inl e \<Rightarrow> Inl e
            | Inr ix' \<Rightarrow> add_paths paths ix'))"

text \<open>
  \<open>build_folder_tree\<close> empties the widget, inserts the root item, reassigns the
  dictionary to the root alone and walks \<open>sorted(paths)\<close>, where \<open>paths\<close> is the set
  of the folder paths of the records and the empty path. The second argument is the
  index before the call; nothing of it is kept.
\<close>

definition root_index :: folder_index where
  "root_index =
     \<lparr>folder_tree = [\<lparr>parent = [], iid = ''__root__'', label = ''Root''\<rparr>],
      folder_path_to_id = [([], ''__root__'')]\<rparr>"

definition build_folder_tree :: "store \<Rightarrow> folder_index \<Rightarrow> error + folder_index" where
  "build_folder_tree cs ix = add_paths (sort (remdups (map folder_path cs @ [[]]))) root_index"

text \<open>
  \<open>add_folder\<close>. \<open>sel\<close> is the selection of the folder tree and \<open>answer\<close> what
  \<open>askstring\<close> returns (\<open>None\<close> when the dialog is cancelled). The method returns
  without a change when the answer is \<open>None\<close> or empty, after a warning when the
  stripped name has a slash, and after a warning when the path is in the dictionary.
\<close>

datatype failure =
    NoName
  | NameHasSlash
  | FolderExists string
  | Raised error

definition selected_path :: "string list \<Rightarrow> string" where
  "selected_path sel =
     (case sel of [] \<Rightarrow> [] | s # _ \<Rightarrow> (if s = ''__root__'' then [] else s))"

definition add_folder :: "string list \<Rightarrow> string option \<Rightarrow> folder_index \<Rightarrow> failure + folder_index" where
  "add_folder sel answer ix =
     (let parent_path = selected_path sel
      in case answer of
           None \<Rightarrow> Inl NoName
         | Some raw \<Rightarrow>
            (if raw = [] then Inl NoName
             else (let nm = strip_chars py_isspace raw
                   in if CHR ''/'' \<in> set nm then Inl NameHasSlash
                      else (let new_path = (if parent_path \<noteq> [] then parent_path @ ''/'' @ nm else nm)
                            in if map_of (folder_path_to_id ix) new_path \<noteq> None
                               then Inl (FolderExists new_path)
                               else (let parent_id =
                                           (case map_of (folder_path_to_id ix) parent_path of
                                              None \<Rightarrow> ''__root__''
                                            | Some i \<Rightarrow> i)
                                     in case tree_insert parent_id new_path nm (folder_tree ix) of
                                          Inl e \<Rightarrow> Inl (Raised e)
                                        | Inr t \<Rightarrow>
                                           Inr \<lparr>folder_tree = t,
                                                folder_path_to_id =
                                                  AList.update new_path new_path
                                                    (folder_path_to_id ix)\<rparr>)))))"

text \<open>
  The folder branch of \<open>delete_selected\<close> once the user has confirmed; the root
  cannot be deleted.
\<close>

definition delete_selected_folder :: "string \<Rightarrow> store \<times> folder_index \<Rightarrow> store \<times> folder_index" where
  "delete_selected_folder node_id st =
     (case st of (cs, ix) \<Rightarrow>
        (if node_id = ''__root__'' then (cs, ix)
         else (delete_folder_contacts node_id cs,
               \<lparr>folder_tree = tree_delete [node_id] (folder_tree ix),
                folder_path_to_id = delete_folder_registry node_id (folder_path_to_id ix)\<rparr>)))"

section \<open>Notions of the specification\<close>

text \<open>
  The local position of the record at global position \<open>i\<close>: its position among only
  the records of the folder, which is the number of records of the folder before it.
\<close>

definition local_pos :: "string \<Rightarrow> store \<Rightarrow> nat \<Rightarrow> nat" where
  "local_pos folder cs i = length (filter (\<lambda>c. folder_path c = folder) (take i cs))"

text \<open>
  The new local ordering of a folder after a reorder from \<open>i\<close> to \<open>j\<close>: the source is
  removed from the local ordering and put back at the local position of the target.
\<close>

definition new_local_order :: "string \<Rightarrow> store \<Rightarrow> nat \<Rightarrow> nat \<Rightarrow> store" where
  "new_local_order folder cs i j =
     list_insert (local_pos folder cs j) (cs ! i)
       (remove_nth (local_pos folder cs i) (filter (\<lambda>c. folder_path c = folder) cs))"

text \<open>The store of the scenario: Bob and Al in folder A, Cy in folder B.\<close>

definition example_store :: store where
  "example_store =
     [new_contact ''A'' ''Bob'' [] [] [] [],
      new_contact ''A'' ''Al'' [] [] [] [],
      new_contact ''B'' ''Cy'' [] [] [] []]"









text \<open>
  Two indexes of the scenarios: the index of an empty store after the folder
  \<open>Sales\<close> was added under the root, and the one after the folder \<open>A\<close> was.
\<close>

definition sales_index :: folder_index where
  "sales_index =
     \<lparr>folder_tree = [\<lparr>parent = [], iid = ''__root__'', label = ''Root''\<rparr>,
                     \<lparr>parent = ''__root__'', iid = ''Sales'', label = ''Sales''\<rparr>],
      folder_path_to_id = [([], ''__root__''), (''Sales'', ''Sales'')]\<rparr>"

definition index_A :: folder_index where
  "index_A =
     \<lparr>folder_tree = [\<lparr>parent = [], iid = ''__root__'', label = ''Root''\<rparr>,
                     \<lparr>parent = ''__root__'', iid = ''A'', label = ''A''\<rparr>],
      folder_path_to_id = [([], ''__root__''), (''A'', ''A'')]\<rparr>"

text \<open>
  The store of the scenario of the folders \<open>Team\<close> and \<open>Team2\<close>, and the index
  \<open>build_folder_tree\<close> builds for it.
\<close>

definition team_store :: store where
  "team_store =
     [new_contact ''Team'' ''Ann'' [] [] [] [],
      new_contact ''Team2'' ''Bob'' [] [] [] []]"

definition team_index :: folder_index where
  "team_index =
     \<lparr>folder_tree = [\<lparr>parent = [], iid = ''__root__'', label = ''Root''\<rparr>,
                     \<lparr>parent = ''__root__'', iid = ''Team'', label = ''Team''\<rparr>,
                     \<lparr>parent = ''__root__'', iid = ''Team2'', label = ''Team2''\<rparr>],
      folder_path_to_id = [([], ''__root__''), (''Team'', ''Team''), (''Team2'', ''Team2'')]\<rparr>"

section \<open>Lists: removing and inserting by position\<close>

lemma length_remove_nth: "i < length xs \<Longrightarrow> length (remove_nth i xs) = length xs - 1"
  by (simp add: remove_nth_def)

lemma nths_only_below:
  "(\<And>k. k < length xs \<Longrightarrow> (k \<in> A) = (k \<in> B)) \<Longrightarrow> nths xs A = nths xs B"
proof (induction xs arbitrary: A B rule: rev_induct)
  case Nil
  then show ?case by simp
next
  case (snoc x xs)
  have "nths xs A = nths xs B"
    by (rule snoc.IH) (simp add: snoc.prems)
  moreover have "(length xs \<in> A) = (length xs \<in> B)"
    by (simp add: snoc.prems)
  ultimately show ?case by (simp add: nths_append)
qed

lemma nths_remove_nth:
  assumes "i < length cs" and "\<And>k. k \<in> S \<Longrightarrow> k < i"
  shows "nths (remove_nth i cs) (- S) = nths cs (- insert i S)"
proof -
  have full: "nths (drop (Suc i) cs) {j. j + i \<in> - S} = drop (Suc i) cs"
    using assms(2) by (intro nths_all) fastforce
  have full': "nths (drop (Suc i) cs) {j. Suc (j + i) \<in> - insert i S} = drop (Suc i) cs"
    using assms(2) by (intro nths_all) fastforce
  have front: "nths (take i cs) (- insert i S) = nths (take i cs) (- S)"
    by (rule nths_only_below) auto
  have "nths (remove_nth i cs) (- S) = nths (take i cs) (- S) @ drop (Suc i) cs"
    using assms(1) full by (simp add: remove_nth_def nths_append min_def)
  moreover have "nths (take i cs @ cs ! i # drop (Suc i) cs) (- insert i S)
      = nths (take i cs) (- S) @ drop (Suc i) cs"
    using assms(1) full' front by (simp add: nths_append nths_Cons min_def)
  ultimately show ?thesis
    using assms(1) by (simp add: id_take_nth_drop [symmetric])
qed

lemma del_each_descending:
  "sorted (rev xs) \<Longrightarrow> distinct xs \<Longrightarrow> \<forall>i\<in>set xs. i < length cs \<Longrightarrow>
     del_each xs cs = Inr (nths cs (- set xs))"
proof (induction xs arbitrary: cs)
  case Nil
  then show ?case by (simp add: nths_all)
next
  case (Cons i xs)
  have "sorted (rev xs @ [i])"
    using Cons.prems(1) by simp
  then have "\<forall>k\<in>set xs. k \<le> i"
    by (simp add: sorted_append)
  then have below: "\<And>k. k \<in> set xs \<Longrightarrow> k < i"
    using Cons.prems(2) by (auto simp: le_less)
  have "\<forall>k\<in>set xs. k < length (remove_nth i cs)"
    using below Cons.prems(3) by (fastforce simp: length_remove_nth)
  moreover have "sorted (rev xs)" "distinct xs"
    using Cons.prems(1,2) by (auto simp: sorted_append)
  ultimately have "del_each xs (remove_nth i cs) = Inr (nths (remove_nth i cs) (- set xs))"
    by (rule Cons.IH [rotated 2])
  then show ?case
    using Cons.prems(3) below by (simp add: nths_remove_nth)
qed

lemma del_each_first_invalid:
  "xs \<noteq> [] \<Longrightarrow> \<not> hd xs < length cs \<Longrightarrow> del_each xs cs = Inl (IndexError, cs)"
  by (cases xs) auto

lemma le_hd_rev_sort:
  fixes sel :: "nat list"
  assumes "i \<in> set sel"
  shows "i \<le> hd (rev (sort sel))"
proof -
  let ?xs = "sort sel"
  have ne: "?xs \<noteq> []"
    using assms by (metis empty_iff list.set(1) set_sort)
  obtain k where k: "k < length ?xs" "?xs ! k = i"
    using assms by (metis in_set_conv_nth set_sort)
  have "?xs ! k \<le> ?xs ! (length ?xs - 1)"
    using k(1) by (intro sorted_nth_mono) auto
  then show ?thesis
    using ne k(2) by (simp add: hd_rev last_conv_nth)
qed

lemma delete_invalid:
  assumes "i \<in> set sel" "\<not> i < length cs"
  shows "delete_selected_contacts sel cs = Inl (IndexError, cs)"
proof -
  have "rev (sort sel) \<noteq> []"
    using assms(1) by (metis empty_iff list.set(1) set_sort rev_is_Nil_conv)
  moreover have "\<not> hd (rev (sort sel)) < length cs"
    using le_hd_rev_sort [OF assms(1)] assms(2) by simp
  ultimately show ?thesis
    unfolding delete_selected_contacts_def by (rule del_each_first_invalid)
qed

lemma delete_valid:
  assumes "distinct sel" "\<forall>i\<in>set sel. i < length cs"
  shows "delete_selected_contacts sel cs = Inr (nths cs (- set sel))"
proof -
  have "del_each (rev (sort sel)) cs = Inr (nths cs (- set (rev (sort sel))))"
    using assms by (intro del_each_descending) simp_all
  then show ?thesis
    by (simp add: delete_selected_contacts_def)
qed

section \<open>Reordering within a folder: the write-back loop\<close>

lemma fold_update_length:
  "length (fold (\<lambda>(li, gi) acc. acc[gi := vals ! li]) ps cs) = length cs"
  by (induction ps arbitrary: cs) (auto split: prod.splits)

lemma fold_update_other:
  "k \<notin> snd ` set ps \<Longrightarrow> fold (\<lambda>(li, gi) acc. acc[gi := vals ! li]) ps cs ! k = cs ! k"
  by (induction ps arbitrary: cs) (auto split: prod.splits)

lemma fold_update_slot:
  "distinct (map snd ps) \<Longrightarrow> (li, gi) \<in> set ps \<Longrightarrow> gi < length cs \<Longrightarrow>
     fold (\<lambda>(li, gi) acc. acc[gi := vals ! li]) ps cs ! gi = vals ! li"
proof (induction ps arbitrary: cs)
  case Nil
  then show ?case by simp
next
  case (Cons p ps)
  obtain a b where p: "p = (a, b)" by (cases p)
  show ?case
  proof (cases "(li, gi) = (a, b)")
    case True
    then have "gi \<notin> snd ` set ps"
      using Cons.prems(1) p by auto
    then show ?thesis
      using True p Cons.prems(3) by (simp add: fold_update_other)
  next
    case False
    then have "(li, gi) \<in> set ps"
      using Cons.prems(2) p by auto
    moreover have "distinct (map snd ps)"
      using Cons.prems(1) by simp
    ultimately show ?thesis
      using Cons.IH [of "cs[b := vals ! a]"] Cons.prems(3) p by simp
  qed
qed

lemma write_back_length: "length (write_back idxs vals cs) = length cs"
  by (simp add: write_back_def fold_update_length)

lemma write_back_other: "k \<notin> set idxs \<Longrightarrow> write_back idxs vals cs ! k = cs ! k"
proof -
  assume "k \<notin> set idxs"
  then have "k \<notin> snd ` set (zip [0..<length idxs] idxs)"
    by (auto dest: set_zip_rightD)
  then show ?thesis
    by (simp add: write_back_def fold_update_other)
qed

lemma write_back_slot:
  assumes "distinct idxs" "m < length idxs" "idxs ! m < length cs"
  shows "write_back idxs vals cs ! (idxs ! m) = vals ! m"
proof -
  have "(m, idxs ! m) \<in> set (zip [0..<length idxs] idxs)"
    using assms(2) by (auto simp: set_zip intro!: exI [of _ m])
  moreover have "distinct (map snd (zip [0..<length idxs] idxs))"
    using assms(1) by simp
  ultimately show ?thesis
    unfolding write_back_def using assms(3) by (intro fold_update_slot)
qed

lemma index_of_Some: "index_of x xs = Some p \<Longrightarrow> p < length xs \<and> xs ! p = x"
  by (induction xs arbitrary: p) (auto split: if_splits)

lemma index_of_append: "x \<notin> set xs \<Longrightarrow> index_of x (xs @ x # ys) = Some (length xs)"
  by (induction xs) auto

lemma filter_upt_take:
  "i \<le> length cs \<Longrightarrow> map (\<lambda>k. cs ! k) (filter (\<lambda>k. P (cs ! k)) [0..<i]) = filter P (take i cs)"
proof (induction i)
  case 0
  then show ?case by simp
next
  case (Suc i)
  then show ?case by (simp add: take_Suc_conv_app_nth)
qed

lemma folder_contacts_eq:
  "map (\<lambda>k. cs ! k) (folder_indices folder cs) = filter (\<lambda>c. folder_path c = folder) cs"
  using filter_upt_take [of "length cs" cs "\<lambda>c. folder_path c = folder"]
  by (simp add: folder_indices_def)

lemma folder_indices_set:
  "set (folder_indices folder cs) = {k. k < length cs \<and> folder_path (cs ! k) = folder}"
  by (auto simp: folder_indices_def)

lemma folder_indices_distinct: "distinct (folder_indices folder cs)"
  by (simp add: folder_indices_def)

lemma folder_indices_split:
  assumes "i < length cs" "folder_path (cs ! i) = folder"
  shows "folder_indices folder cs =
           filter (\<lambda>k. folder_path (cs ! k) = folder) [0..<i] @ i #
           filter (\<lambda>k. folder_path (cs ! k) = folder) [Suc i..<length cs]"
proof -
  have "[0..<length cs] = [0..<i] @ i # [Suc i..<length cs]"
    using assms(1) by (metis less_imp_le_nat upt_add_eq_append upt_conv_Cons le_add_diff_inverse zero_le add_0)
  then show ?thesis
    using assms(2) by (simp add: folder_indices_def)
qed

lemma index_of_folder_indices:
  assumes "i < length cs" "folder_path (cs ! i) = folder"
  shows "index_of i (folder_indices folder cs) = Some (local_pos folder cs i)"
proof -
  let ?front = "filter (\<lambda>k. folder_path (cs ! k) = folder) [0..<i]"
  have "i \<notin> set ?front" by simp
  then have "index_of i (?front @ i #
      filter (\<lambda>k. folder_path (cs ! k) = folder) [Suc i..<length cs]) = Some (length ?front)"
    by (rule index_of_append)
  then have "index_of i (folder_indices folder cs) = Some (length ?front)"
    by (simp only: folder_indices_split [OF assms])
  moreover have "length ?front = local_pos folder cs i"
    using filter_upt_take [of i cs "\<lambda>c. folder_path c = folder"] assms(1)
    unfolding local_pos_def by (metis length_map less_imp_le_nat)
  ultimately show ?thesis by simp
qed



lemma filter_by_index:
  "filter P xs = map (\<lambda>k. xs ! k) (filter (\<lambda>k. P (xs ! k)) [0..<length xs])"
  using filter_upt_take [of "length xs" xs P] by simp

lemma local_pos_less:
  assumes "i < length cs" "folder_path (cs ! i) = folder"
  shows "local_pos folder cs i < length (filter (\<lambda>c. folder_path c = folder) cs)"
        "folder_indices folder cs ! local_pos folder cs i = i"
proof -
  have "local_pos folder cs i < length (folder_indices folder cs)
        \<and> folder_indices folder cs ! local_pos folder cs i = i"
    using index_of_folder_indices [OF assms] by (rule index_of_Some)
  moreover have "length (folder_indices folder cs) = length (filter (\<lambda>c. folder_path c = folder) cs)"
    by (metis folder_contacts_eq length_map)
  ultimately show "local_pos folder cs i < length (filter (\<lambda>c. folder_path c = folder) cs)"
    and "folder_indices folder cs ! local_pos folder cs i = i" by simp_all
qed

lemma length_folder_indices:
  "length (folder_indices folder cs) = length (filter (\<lambda>c. folder_path c = folder) cs)"
  by (metis folder_contacts_eq length_map)

lemma length_new_local_order:
  assumes "i < length cs" "folder_path (cs ! i) = folder"
  shows "length (new_local_order folder cs i j) = length (folder_indices folder cs)"
  using local_pos_less(1) [OF assms]
  by (simp add: new_local_order_def list_insert_def remove_nth_def length_folder_indices)

lemma set_list_insert: "set (list_insert k x ys) = insert x (set ys)"
proof -
  have "set (take k ys) \<union> set (drop k ys) = set ys"
    by (metis append_take_drop_id set_append)
  then show ?thesis by (auto simp: list_insert_def)
qed

lemma set_remove_nth: "set (remove_nth k xs) \<subseteq> set xs"
  by (auto simp: remove_nth_def dest: in_set_takeD in_set_dropD)

lemma new_local_order_folder:
  assumes "i < length cs" "folder_path (cs ! i) = folder" "c \<in> set (new_local_order folder cs i j)"
  shows "folder_path c = folder"
proof -
  have "c = cs ! i \<or> c \<in> set (filter (\<lambda>c. folder_path c = folder) cs)"
    using assms(3) set_remove_nth unfolding new_local_order_def set_list_insert by fastforce
  then show ?thesis using assms(2) by auto
qed

lemma reorder_within_folder_eq:
  assumes "i < length cs" "j < length cs" "folder_path (cs ! j) = folder_path (cs ! i)"
  shows "reorder_within_folder i j cs =
           Inr (write_back (folder_indices (folder_path (cs ! i)) cs)
                  (new_local_order (folder_path (cs ! i)) cs i j) cs)"
proof -
  let ?F = "folder_path (cs ! i)"
  have si: "index_of i (folder_indices ?F cs) = Some (local_pos ?F cs i)"
    using assms(1) by (simp add: index_of_folder_indices)
  have sj: "index_of j (folder_indices ?F cs) = Some (local_pos ?F cs j)"
    using assms(2,3) by (simp add: index_of_folder_indices)
  have "local_pos ?F cs i < length (folder_indices ?F cs)"
    using si by (simp add: index_of_Some)
  then have "map (\<lambda>k. cs ! k) (folder_indices ?F cs) ! local_pos ?F cs i = cs ! i"
    using local_pos_less(2) [OF assms(1) refl] by simp
  then show ?thesis
    using assms(1) si sj
    by (simp add: reorder_within_folder_def Let_def new_local_order_def folder_contacts_eq)
qed

lemma write_back_new_nth:
  assumes "i < length cs" "k < length cs" "folder_path (cs ! k) = folder_path (cs ! i)"
  shows "write_back (folder_indices (folder_path (cs ! i)) cs) vals cs ! k
           = vals ! local_pos (folder_path (cs ! i)) cs k"
proof -
  let ?F = "folder_path (cs ! i)"
  have "local_pos ?F cs k < length (folder_indices ?F cs)"
    using local_pos_less(1) [OF assms(2,3)] by (simp add: length_folder_indices)
  moreover have "folder_indices ?F cs ! local_pos ?F cs k = k"
    using local_pos_less(2) [OF assms(2,3)] .
  ultimately show ?thesis
    using write_back_slot [of "folder_indices ?F cs" "local_pos ?F cs k" cs vals] assms(2)
    by (simp add: folder_indices_distinct)
qed

lemma reorder_frame:
  assumes "i < length cs" "j < length cs" "folder_path (cs ! j) = folder_path (cs ! i)"
  defines "r \<equiv> write_back (folder_indices (folder_path (cs ! i)) cs)
                  (new_local_order (folder_path (cs ! i)) cs i j) cs"
  shows "length r = length cs"
    and "\<And>k. k < length cs \<Longrightarrow> folder_path (cs ! k) \<noteq> folder_path (cs ! i) \<Longrightarrow> r ! k = cs ! k"
    and "\<And>k. k < length cs \<Longrightarrow> folder_path (cs ! k) = folder_path (cs ! i) \<Longrightarrow>
           r ! k = new_local_order (folder_path (cs ! i)) cs i j ! local_pos (folder_path (cs ! i)) cs k"
    and "\<And>k. k < length cs \<Longrightarrow> folder_path (r ! k) = folder_path (cs ! k)"
proof -
  let ?F = "folder_path (cs ! i)"
  let ?new = "new_local_order ?F cs i j"
  show len: "length r = length cs"
    by (simp add: r_def write_back_length)
  show other: "r ! k = cs ! k" if "k < length cs" "folder_path (cs ! k) \<noteq> ?F" for k
    using that by (simp add: r_def write_back_other folder_indices_set)
  show slot: "r ! k = ?new ! local_pos ?F cs k" if "k < length cs" "folder_path (cs ! k) = ?F" for k
    unfolding r_def using assms(1) that by (rule write_back_new_nth)
  show "folder_path (r ! k) = folder_path (cs ! k)" if k: "k < length cs" for k
  proof (cases "folder_path (cs ! k) = ?F")
    case True
    have "local_pos ?F cs k < length ?new"
      using local_pos_less(1) [OF k True] assms(1)
      by (simp add: length_new_local_order length_folder_indices)
    then have "?new ! local_pos ?F cs k \<in> set ?new" by simp
    then have "folder_path (?new ! local_pos ?F cs k) = ?F"
      by (rule new_local_order_folder [OF assms(1) refl])
    then show ?thesis using slot [OF k True] True by simp
  next
    case False
    then show ?thesis using other [OF k] by simp
  qed
qed

lemma reorder_local_order:
  assumes "i < length cs" "j < length cs" "folder_path (cs ! j) = folder_path (cs ! i)"
  defines "r \<equiv> write_back (folder_indices (folder_path (cs ! i)) cs)
                  (new_local_order (folder_path (cs ! i)) cs i j) cs"
  shows "filter (\<lambda>c. folder_path c = folder_path (cs ! i)) r
           = new_local_order (folder_path (cs ! i)) cs i j"
proof -
  let ?F = "folder_path (cs ! i)"
  let ?new = "new_local_order ?F cs i j"
  let ?idxs = "folder_indices ?F cs"
  note fr = reorder_frame [OF assms(1-3), folded r_def]
  have "filter (\<lambda>k. folder_path (r ! k) = ?F) [0..<length r] = ?idxs"
    unfolding folder_indices_def fr(1) by (rule filter_cong) (simp_all add: fr(4))
  then have "filter (\<lambda>c. folder_path c = ?F) r = map (\<lambda>k. r ! k) ?idxs"
    using filter_by_index [of "\<lambda>c. folder_path c = ?F" r] by simp
  also have "\<dots> = ?new"
  proof (rule nth_equalityI)
    show "length (map (\<lambda>k. r ! k) ?idxs) = length ?new"
      using assms(1) by (simp add: length_new_local_order)
  next
    fix m assume "m < length (map (\<lambda>k. r ! k) ?idxs)"
    then have m: "m < length ?idxs" by simp
    then have "?idxs ! m \<in> set ?idxs" by simp
    then have bound: "?idxs ! m < length cs"
      by (simp add: folder_indices_set)
    have "r ! (?idxs ! m) = ?new ! m"
      unfolding r_def using folder_indices_distinct m bound by (rule write_back_slot)
    then show "map (\<lambda>k. r ! k) ?idxs ! m = ?new ! m"
      using m by simp
  qed
  finally show ?thesis .
qed

lemma reorder_source_at_target:
  assumes "i < length cs" "j < length cs" "folder_path (cs ! j) = folder_path (cs ! i)"
  defines "r \<equiv> write_back (folder_indices (folder_path (cs ! i)) cs)
                  (new_local_order (folder_path (cs ! i)) cs i j) cs"
  shows "r ! j = cs ! i"
proof -
  let ?F = "folder_path (cs ! i)"
  let ?loc = "filter (\<lambda>c. folder_path c = ?F) cs"
  have "local_pos ?F cs i < length ?loc"
    by (rule local_pos_less(1) [OF assms(1) refl])
  moreover have "local_pos ?F cs j < length ?loc"
    by (rule local_pos_less(1) [OF assms(2,3)])
  ultimately have "local_pos ?F cs i < length ?loc" "local_pos ?F cs j < length ?loc"
    by simp_all
  then have "local_pos ?F cs j \<le> length (remove_nth (local_pos ?F cs i) ?loc)"
    by (simp add: remove_nth_def)
  then have "new_local_order ?F cs i j ! local_pos ?F cs j = cs ! i"
    by (simp add: new_local_order_def list_insert_def nth_append)
  then show ?thesis
    using reorder_frame(3) [OF assms(1-3) assms(2,3)] by (simp add: r_def)
qed

lemma reorder_others_order:
  assumes "i < length cs" "j < length cs" "folder_path (cs ! j) = folder_path (cs ! i)"
  defines "r \<equiv> write_back (folder_indices (folder_path (cs ! i)) cs)
                  (new_local_order (folder_path (cs ! i)) cs i j) cs"
  shows "filter (\<lambda>c. folder_path c \<noteq> folder_path (cs ! i)) r
           = filter (\<lambda>c. folder_path c \<noteq> folder_path (cs ! i)) cs"
proof -
  let ?F = "folder_path (cs ! i)"
  note fr = reorder_frame [OF assms(1-3), folded r_def]
  have idx: "filter (\<lambda>k. folder_path (r ! k) \<noteq> ?F) [0..<length r]
        = filter (\<lambda>k. folder_path (cs ! k) \<noteq> ?F) [0..<length cs]"
    unfolding fr(1) by (rule filter_cong) (simp_all add: fr(4))
  have "filter (\<lambda>c. folder_path c \<noteq> ?F) r
        = map (\<lambda>k. r ! k) (filter (\<lambda>k. folder_path (cs ! k) \<noteq> ?F) [0..<length cs])"
    using filter_by_index [of "\<lambda>c. folder_path c \<noteq> ?F" r] idx by simp
  also have "\<dots> = map (\<lambda>k. cs ! k) (filter (\<lambda>k. folder_path (cs ! k) \<noteq> ?F) [0..<length cs])"
    by (rule map_cong) (simp_all add: fr(2))
  also have "\<dots> = filter (\<lambda>c. folder_path c \<noteq> ?F) cs"
    using filter_by_index [of "\<lambda>c. folder_path c \<noteq> ?F" cs] by simp
  finally show ?thesis .
qed

section \<open>Claims about the record store\<close>

text \<open>
  Claim C1. Deleting the folder \<open>p\<close> is claimed to remove exactly the records whose
  folder path is \<open>p\<close> or begins with \<open>p\<close> followed by a slash, so that a record in
  \<open>Team2\<close> is kept when \<open>Team\<close> is deleted. The program tests the records with
  \<open>startswith(folder_path)\<close>, without the slash. On the store of one record in
  \<open>Team\<close> and one in \<open>Team2\<close>, with the index built for it, deleting the folder
  \<open>Team\<close> removes both records, although \<open>Team2\<close> is not in the subtree of
  \<open>Team\<close>; the folder \<open>Team2\<close> itself stays in the widget and in the dictionary,
  which the same method filters with the slash.
\<close>

theorem delete_subtree_removes_sibling_prefix:
  "build_folder_tree team_store root_index = Inr team_index
   \<and> delete_selected_folder ''Team'' (team_store, team_index)
       = ([],
          \<lparr>folder_tree = [\<lparr>parent = [], iid = ''__root__'', label = ''Root''\<rparr>,
                          \<lparr>parent = ''__root__'', iid = ''Team2'', label = ''Team2''\<rparr>],
           folder_path_to_id = [([], ''__root__''), (''Team2'', ''Team2'')]\<rparr>)
   \<and> \<not> in_subtree ''Team'' ''Team2''"
  by (simp add: build_folder_tree_def team_store_def team_index_def root_index_def
      new_contact_def path_parts_def strip_chars_def join_path_def tree_insert_def Let_def
      delete_selected_folder_def delete_folder_contacts_def delete_folder_registry_def
      in_subtree_def startswith_def)

text \<open>
  Claim C2. For valid positions \<open>i \<noteq> j\<close>, moving the record at \<open>i\<close> into a folder
  after the record at \<open>j\<close> succeeds; the record that was at \<open>j\<close> is then at
  \<open>j - 1\<close> when \<open>i < j\<close> and at \<open>j\<close> otherwise, the moved record, with its folder
  path set to the new folder and no other field changed, is at the position one
  greater, and removing it there gives the store with the record at \<open>i\<close> removed, so
  that no other record changes or loses its place in the order.
\<close>

theorem move_to_folder_after:
  assumes "i < length cs" "j < length cs" "i \<noteq> j"
  shows "\<exists>r. move_contact_to_folder_at_position i folder j cs = Inr r
           \<and> length r = length cs
           \<and> r ! (if i < j then j - 1 else j) = cs ! j
           \<and> r ! ((if i < j then j - 1 else j) + 1) = (cs ! i)\<lparr>folder_path := folder\<rparr>
           \<and> remove_nth ((if i < j then j - 1 else j) + 1) r = remove_nth i cs"
proof (cases "i < j")
  case True
  let ?r = "list_insert j ((cs ! i)\<lparr>folder_path := folder\<rparr>) (remove_nth i cs)"
  have eq: "move_contact_to_folder_at_position i folder j cs = Inr ?r"
    using assms(1) True by (simp add: move_contact_to_folder_at_position_def)
  have len: "length (remove_nth i cs) = length cs - 1"
    using assms(1) by (rule length_remove_nth)
  have j1: "j - 1 < length (remove_nth i cs)" "j \<le> length (remove_nth i cs)"
    using assms(2) True len by simp_all
  have "length ?r = length cs"
    using assms(1) len by (simp add: list_insert_def)
  moreover have "?r ! (j - 1) = cs ! j"
    using True assms(1,2) by (simp add: list_insert_def remove_nth_def nth_append min_def)
  moreover have "?r ! j = (cs ! i)\<lparr>folder_path := folder\<rparr>"
    using j1(2) by (simp add: list_insert_def nth_append)
  moreover have "remove_nth j ?r = remove_nth i cs"
    using j1(2) by (simp add: list_insert_def remove_nth_def[of j] min_def)
  ultimately show ?thesis
    using eq True by simp
next
  case False
  then have ji: "j < i" using assms(3) by simp
  let ?r = "list_insert (j + 1) ((cs ! i)\<lparr>folder_path := folder\<rparr>) (remove_nth i cs)"
  have eq: "move_contact_to_folder_at_position i folder j cs = Inr ?r"
    using assms(1) False by (simp add: move_contact_to_folder_at_position_def)
  have len: "length (remove_nth i cs) = length cs - 1"
    using assms(1) by (rule length_remove_nth)
  have j1: "j + 1 \<le> length (remove_nth i cs)"
    using assms(1) ji len by simp
  have "length ?r = length cs"
    using assms(1) len by (simp add: list_insert_def)
  moreover have "?r ! j = cs ! j"
    using ji assms(1) by (simp add: list_insert_def remove_nth_def nth_append min_def)
  moreover have "?r ! (j + 1) = (cs ! i)\<lparr>folder_path := folder\<rparr>"
    using j1 by (simp add: list_insert_def nth_append)
  moreover have "remove_nth (j + 1) ?r = remove_nth i cs"
    using j1 by (simp add: list_insert_def remove_nth_def[of "Suc j"] min_def)
  ultimately show ?thesis
    using eq False by simp
qed

theorem move_to_folder_after_witness:
  "(0::nat) < length example_store \<and> 2 < length example_store \<and> (0::nat) \<noteq> 2
   \<and> (\<exists>r. move_contact_to_folder_at_position 0 ''B'' 2 example_store = Inr r
          \<and> length r = 3
          \<and> r ! 1 = example_store ! 2
          \<and> r ! 2 = (example_store ! 0)\<lparr>folder_path := ''B''\<rparr>)"
  using move_to_folder_after [of 0 example_store 2 "''B''"]
  by (auto simp: example_store_def numeral_2_eq_2 numeral_3_eq_3)

text \<open>
  Claim C3. For valid positions \<open>i\<close> and \<open>j\<close> whose records share a folder, the
  reorder succeeds and keeps the length of the store; the records of the folder, read
  in the order of the new store, are the new local ordering (the source removed from
  the local ordering and put back at the local position of the target); the source is
  in the slot of the target; the slots of the folder are the same positions as before
  and every other slot keeps its record. On the store of the scenario, reordering
  from 0 to 1 yields Al, Bob, Cy.
\<close>

theorem reorder_within_folder_local_order:
  "(i < length cs \<and> j < length cs \<and> folder_path (cs ! j) = folder_path (cs ! i) \<longrightarrow>
      (\<exists>r. reorder_within_folder i j cs = Inr r
         \<and> length r = length cs
         \<and> filter (\<lambda>c. folder_path c = folder_path (cs ! i)) r
             = new_local_order (folder_path (cs ! i)) cs i j
         \<and> r ! j = cs ! i
         \<and> (\<forall>k < length cs. (folder_path (r ! k) = folder_path (cs ! i))
                              = (folder_path (cs ! k) = folder_path (cs ! i)))
         \<and> (\<forall>k < length cs. folder_path (cs ! k) \<noteq> folder_path (cs ! i) \<longrightarrow> r ! k = cs ! k)))
   \<and> reorder_within_folder 0 1 example_store
       = Inr [example_store ! 1, example_store ! 0, example_store ! 2]"
proof (intro conjI impI)
  assume a: "i < length cs \<and> j < length cs \<and> folder_path (cs ! j) = folder_path (cs ! i)"
  then have i: "i < length cs" and j: "j < length cs"
    and same: "folder_path (cs ! j) = folder_path (cs ! i)" by simp_all
  let ?r = "write_back (folder_indices (folder_path (cs ! i)) cs)
              (new_local_order (folder_path (cs ! i)) cs i j) cs"
  have "reorder_within_folder i j cs = Inr ?r"
    using i j same by (rule reorder_within_folder_eq)
  moreover have "length ?r = length cs"
    using i j same by (rule reorder_frame(1))
  moreover have "filter (\<lambda>c. folder_path c = folder_path (cs ! i)) ?r
      = new_local_order (folder_path (cs ! i)) cs i j"
    using i j same by (rule reorder_local_order)
  moreover have "?r ! j = cs ! i"
    using i j same by (rule reorder_source_at_target)
  moreover have "\<forall>k < length cs. (folder_path (?r ! k) = folder_path (cs ! i))
                              = (folder_path (cs ! k) = folder_path (cs ! i))"
    using reorder_frame(4) [OF i j same] by simp
  moreover have "\<forall>k < length cs. folder_path (cs ! k) \<noteq> folder_path (cs ! i) \<longrightarrow> ?r ! k = cs ! k"
    using reorder_frame(2) [OF i j same] by simp
  ultimately show "\<exists>r. reorder_within_folder i j cs = Inr r
         \<and> length r = length cs
         \<and> filter (\<lambda>c. folder_path c = folder_path (cs ! i)) r
             = new_local_order (folder_path (cs ! i)) cs i j
         \<and> r ! j = cs ! i
         \<and> (\<forall>k < length cs. (folder_path (r ! k) = folder_path (cs ! i))
                              = (folder_path (cs ! k) = folder_path (cs ! i)))
         \<and> (\<forall>k < length cs. folder_path (cs ! k) \<noteq> folder_path (cs ! i) \<longrightarrow> r ! k = cs ! k)"
    by blast
next
  show "reorder_within_folder 0 1 example_store
       = Inr [example_store ! 1, example_store ! 0, example_store ! 2]"
    by (simp add: reorder_within_folder_def example_store_def new_contact_def folder_indices_def
        write_back_def remove_nth_def list_insert_def Let_def upt_rec numeral_2_eq_2 numeral_3_eq_3)
qed

theorem reorder_within_folder_local_order_witness:
  "(0::nat) < length example_store \<and> (1::nat) < length example_store
   \<and> folder_path (example_store ! 1) = folder_path (example_store ! 0)
   \<and> (\<exists>r. reorder_within_folder 0 1 example_store = Inr r
        \<and> filter (\<lambda>c. folder_path c = ''A'') r = [example_store ! 1, example_store ! 0]
        \<and> r ! 1 = example_store ! 0
        \<and> r ! 2 = example_store ! 2)"
  using reorder_within_folder_local_order [of 0 example_store 1]
  by (auto simp: example_store_def new_contact_def new_local_order_def local_pos_def
      remove_nth_def list_insert_def numeral_2_eq_2 numeral_3_eq_3)

text \<open>
  Claim C4. For valid positions \<open>i\<close> and \<open>j\<close> whose records share a folder, the
  reorder changes the folder path at no position, every record of another folder
  stays at its global position, and the records of the other folders keep their
  relative order.
\<close>

theorem reorder_within_folder_frame:
  assumes "i < length cs" "j < length cs" "folder_path (cs ! j) = folder_path (cs ! i)"
  shows "\<exists>r. reorder_within_folder i j cs = Inr r
           \<and> map folder_path r = map folder_path cs
           \<and> (\<forall>k < length cs. folder_path (cs ! k) \<noteq> folder_path (cs ! i) \<longrightarrow> r ! k = cs ! k)
           \<and> filter (\<lambda>c. folder_path c \<noteq> folder_path (cs ! i)) r
               = filter (\<lambda>c. folder_path c \<noteq> folder_path (cs ! i)) cs"
proof -
  let ?r = "write_back (folder_indices (folder_path (cs ! i)) cs)
              (new_local_order (folder_path (cs ! i)) cs i j) cs"
  note fr = reorder_frame [OF assms]
  have "reorder_within_folder i j cs = Inr ?r"
    using assms by (rule reorder_within_folder_eq)
  moreover have "map folder_path ?r = map folder_path cs"
    by (rule nth_equalityI) (simp_all add: fr(1) fr(4))
  moreover have "\<forall>k < length cs. folder_path (cs ! k) \<noteq> folder_path (cs ! i) \<longrightarrow> ?r ! k = cs ! k"
    using fr(2) by simp
  moreover have "filter (\<lambda>c. folder_path c \<noteq> folder_path (cs ! i)) ?r
               = filter (\<lambda>c. folder_path c \<noteq> folder_path (cs ! i)) cs"
    using assms by (rule reorder_others_order)
  ultimately show ?thesis by blast
qed

theorem reorder_within_folder_frame_witness:
  "(0::nat) < length example_store \<and> (1::nat) < length example_store
   \<and> folder_path (example_store ! 1) = folder_path (example_store ! 0)
   \<and> (\<exists>r. reorder_within_folder 0 1 example_store = Inr r
        \<and> map folder_path r = [''A'', ''A'', ''B'']
        \<and> r ! 2 = example_store ! 2)"
  using reorder_within_folder_frame [of 0 example_store 1]
  by (auto simp: example_store_def new_contact_def numeral_2_eq_2 numeral_3_eq_3)

text \<open>
  Claim C7. Deleting selected contacts is claimed to ignore positions that are out of
  range, to raise no error and to remove the records at the valid positions. The
  program deletes in descending order with \<open>del\<close>, which raises \<open>IndexError\<close> on
  the first position that is out of range: with the positions 0 and 5 selected on a
  store of three records the error is raised and the record at position 0 is still
  there.
\<close>

theorem delete_out_of_range_counterexample:
  "delete_selected_contacts [0, 5] example_store = Inl (IndexError, example_store)
   \<and> delete_selected_contacts [0, 5] example_store \<noteq> Inr [example_store ! 1, example_store ! 2]"
  by (simp add: delete_selected_contacts_def example_store_def)

text \<open>
  Claim C7 as amended. When the selected positions are distinct and all in range,
  exactly the records at these positions are removed and the others keep their order.
  When some selected position is out of range, \<open>IndexError\<close> is raised before any
  record is removed and the store is unchanged.
\<close>

theorem delete_selected_contacts_all_or_nothing:
  "(distinct sel \<and> (\<forall>i\<in>set sel. i < length cs) \<longrightarrow>
      delete_selected_contacts sel cs = Inr (nths cs (- set sel)))
   \<and> ((\<exists>i\<in>set sel. \<not> i < length cs) \<longrightarrow>
      delete_selected_contacts sel cs = Inl (IndexError, cs))"
  using delete_valid [of sel cs] delete_invalid [of _ sel cs] by blast

theorem delete_selected_contacts_all_or_nothing_witness:
  "distinct [0, 1 :: nat] \<and> 0 < length example_store \<and> 1 < length example_store
   \<and> delete_selected_contacts [0, 1] example_store = Inr [example_store ! 2]
   \<and> \<not> 5 < length example_store
   \<and> delete_selected_contacts [0, 5] example_store = Inl (IndexError, example_store)"
  using delete_selected_contacts_all_or_nothing [of "[0, 1]" example_store]
    delete_selected_contacts_all_or_nothing [of "[0, 5]" example_store]
  by (simp add: example_store_def nths_Cons numeral_2_eq_2)

lemma drop_on_folder_eq:
  "drop_on_folder i row st =
     (if folder_path (contacts st ! i) \<noteq> (if row = [] \<or> row = ''__root__'' then [] else row)
      then \<lparr>contacts = (contacts st)[i := (contacts st ! i)
                \<lparr>folder_path := (if row = [] \<or> row = ''__root__'' then [] else row)\<rparr>],
            contacts_file = Some (save_contacts ((contacts st)[i := (contacts st ! i)
                \<lparr>folder_path := (if row = [] \<or> row = ''__root__'' then [] else row)\<rparr>]))\<rparr>
      else st)"
  by (cases "row = []"; cases "row = ''__root__''") (simp_all add: drop_on_folder_def Let_def)

text \<open>
  Claim C10. Ending a drag of the record at a valid position over a row of the folder
  tree raises nothing and reparents the record in place: its folder path becomes the
  path of the row (the root path for the root row or for no row), its other fields
  and its position are kept, every other record is unchanged, and when the record is
  in that folder already the whole state is unchanged.
\<close>

theorem drop_on_folder_reparents_in_place:
  assumes "dragged d" and "contact_idx d < length (contacts st)"
  shows "\<exists>st'. on_end_drag (Some d) (OverFolderTree row) st = (st', None)
           \<and> contacts st' =
               (contacts st)[contact_idx d :=
                  (contacts st ! contact_idx d)
                    \<lparr>folder_path := (if row = [] \<or> row = ''__root__'' then [] else row)\<rparr>]
           \<and> length (contacts st') = length (contacts st)
           \<and> (\<forall>k < length (contacts st). k \<noteq> contact_idx d \<longrightarrow>
                 contacts st' ! k = contacts st ! k)
           \<and> (folder_path (contacts st ! contact_idx d)
                 = (if row = [] \<or> row = ''__root__'' then [] else row) \<longrightarrow> st' = st)"
proof -
  let ?i = "contact_idx d"
  let ?new = "if row = [] \<or> row = ''__root__'' then [] else row"
  let ?st' = "drop_on_folder ?i row st"
  have eq: "on_end_drag (Some d) (OverFolderTree row) st = (?st', None)"
    using assms by (simp add: on_end_drag_def)
  have same: "?st' = st" if "folder_path (contacts st ! ?i) = ?new"
    using that by (simp add: drop_on_folder_eq)
  have upd: "contacts ?st' = (contacts st)[?i := (contacts st ! ?i)\<lparr>folder_path := ?new\<rparr>]"
  proof (cases "folder_path (contacts st ! ?i) = ?new")
    case True
    have "(contacts st ! ?i)\<lparr>folder_path := ?new\<rparr> = contacts st ! ?i"
      by (subst True [symmetric]) simp
    then show ?thesis
      using same [OF True] by (simp only: list_update_id)
  next
    case False
    then show ?thesis
      by (simp add: drop_on_folder_eq)
  qed
  have "length (contacts ?st') = length (contacts st)"
    by (simp add: upd)
  moreover have "\<forall>k < length (contacts st). k \<noteq> ?i \<longrightarrow> contacts ?st' ! k = contacts st ! k"
    by (simp add: upd)
  ultimately show ?thesis
    using eq upd same by blast
qed

theorem drop_on_folder_reparents_in_place_witness:
  "dragged \<lparr>contact_idx = 0, dragged = True\<rparr>
   \<and> contact_idx \<lparr>contact_idx = 0, dragged = True\<rparr>
        < length (contacts \<lparr>contacts = example_store, contacts_file = None\<rparr>)
   \<and> (\<exists>st'. on_end_drag (Some \<lparr>contact_idx = 0, dragged = True\<rparr>) (OverFolderTree ''B'')
               \<lparr>contacts = example_store, contacts_file = None\<rparr> = (st', None)
          \<and> contacts st' =
               [(example_store ! 0)\<lparr>folder_path := ''B''\<rparr>, example_store ! 1, example_store ! 2])"
  using drop_on_folder_reparents_in_place
    [of "\<lparr>contact_idx = 0, dragged = True\<rparr>"
        "\<lparr>contacts = example_store, contacts_file = None\<rparr>" "''B''"]
  by (auto simp: example_store_def)

section \<open>Claims about persistence\<close>



















text \<open>
  Claim C9. Loading is claimed to fail when a required field is absent on a data row.
  On the file of the header the program writes and one data row with the folder cell
  alone, the required name is absent, yet loading succeeds: \<open>DictReader\<close> binds the
  columns the row does not reach to \<open>None\<close>, so that \<open>row["name"]\<close> raises nothing
  and the record is stored with the name \<open>None\<close>, and with \<open>None\<close> instead of the
  default \<open>""\<close> the program asks for in the other fields.
\<close>

theorem load_short_row_stores_no_name:
  "load_contacts (Some [Row header, Row [''Team'']])
     = Inr ([Row header, Row [''Team'']],
            [\<lparr>folder_path = ''Team'', name = None, ammyadmin_id = None, anydesk_id = None,
              rustdesk_id = None, notes_text = None\<rparr>])"
  by (simp add: load_contacts_def header_def dict_row_def contact_of_row_def get_or_empty_def
      norm_path_def strip_chars_def py_isspace_def)

section \<open>Claims about the folder index\<close>












lemmas add_folder_eval =
  add_folder_def selected_path_def strip_chars_def py_isspace_def tree_insert_def
  root_index_def sales_index_def index_A_def Let_def




text \<open>
  What \<open>add_folder\<close> does for an answer that is missing or empty, for a name with
  a slash, for a path that exists, and when it succeeds: one new path is bound.
\<close>

lemma add_folder_no_name:
  "add_folder sel None ix = Inl NoName" "add_folder sel (Some []) ix = Inl NoName"
  by (simp_all add: add_folder_def)

lemma add_folder_slash:
  "raw \<noteq> [] \<Longrightarrow> CHR ''/'' \<in> set (strip_chars py_isspace raw) \<Longrightarrow>
     add_folder sel (Some raw) ix = Inl NameHasSlash"
  by (simp add: add_folder_def Let_def)

lemma add_folder_duplicate:
  "add_folder [''__root__''] (Some ''Sales'') root_index = Inr sales_index"
  "add_folder [''__root__''] (Some ''Sales'') sales_index = Inl (FolderExists ''Sales'')"
  by (simp_all add: add_folder_eval)

lemma add_folder_registers:
  assumes "add_folder sel answer ix = Inr ix'"
  shows "\<exists>p. map_of (folder_path_to_id ix) p = None
           \<and> folder_path_to_id ix' = AList.update p p (folder_path_to_id ix)
           \<and> fst ` set (folder_path_to_id ix') = insert p (fst ` set (folder_path_to_id ix))"
  using assms
  by (auto simp: add_folder_def Let_def dom_update split: option.splits if_splits sum.splits)

text \<open>
  Claim C8. Creating a folder is claimed to fail with an invalid name when the name is
  empty, also after trimming white space. The program tests the answer for emptiness
  before it strips it: with the folder \<open>A\<close> selected, the answer of one blank is
  stripped to the empty name and the path \<open>A/\<close> is registered, with an item of empty
  text; with the root selected the same answer is reported as the existing folder of
  the empty path.
\<close>

theorem add_folder_blank_name_registered:
  "add_folder [''__root__''] (Some ''A'') root_index = Inr index_A
   \<and> add_folder [''A''] (Some '' '') index_A
       = Inr \<lparr>folder_tree = folder_tree index_A @ [\<lparr>parent = ''A'', iid = ''A/'', label = []\<rparr>],
              folder_path_to_id = folder_path_to_id index_A @ [(''A/'', ''A/'')]\<rparr>
   \<and> add_folder [''__root__''] (Some '' '') root_index = Inl (FolderExists [])"
  by (simp add: add_folder_eval)

end
